theory Spec2Isabelle
  imports Complex_Main
begin

section \<open>Data model\<close>

text \<open>
  \<open>Scalar\<close> is the SDK's \<open>double\<close> (``Scalar = double'' in \<open>sendCommand\<close>), and the shared
  memory image holds \<open>float\<close>s. In the pipeline both are modelled as exact reals: rounding
  and overflow are not modelled, and the IEEE infinities and NaN are not values of
  \<open>Scalar\<close>. What the clipping stage does on those values is modelled apart, on \<open>double\<close>
  below.
\<close>

type_synonym Scalar = real

text \<open>
  Ends of a run that are not a return of the C function. Four are undefined behaviour in C:
  an access outside an array, a NULL pointer handed to \<open>strcpy\<close>, the \<open>free\<close> of an
  uninitialised pointer, the overflow of a signed integer; one is a conversion whose operand
  is out of range. \<open>NotAReal\<close> is the edge of the model, not an exit of the program: the C
  code has no such exit, it goes on with the infinity or NaN that the division by a zero
  \<open>max_stroke\<close> stores.
\<close>

datatype fault =
  OutOfBounds | NullPointer | InvalidFree | SignedOverflow | BadConversion | NotAReal

text \<open>
  The calls a run makes to its collaborators, in order: the saturation message of
  \<open>clip_to_limits\<close> (\<open>printf("Actuator %d saturated!\n", n)\<close>), the vendor SDK, and the
  shared memory image library. Other console output is not recorded.
\<close>

datatype action =
    Saturated int
  | AsdkInit
  | AsdkGet
  | AsdkSend "Scalar list"
  | AsdkReset
  | AsdkRelease
  | CreateIm int "int list" int int
  | SemFlush int
  | SemPost int
  | SemWait int
  | SetWrite int
  | WriteF nat Scalar
  | IncCnt0
  | IncCnt1
  | ReadSharedMem

section \<open>Loops over an array\<close>

text \<open>
  \<open>for (idx = start; idx < n; idx++) body\<close>, with \<open>n\<close> a C \<open>int\<close> (it may be zero or
  negative: the loop then does nothing). A body that leaves the array ends the run.
\<close>

function for_loop :: "nat \<Rightarrow> int \<Rightarrow> (nat \<Rightarrow> 's \<Rightarrow> fault + 's) \<Rightarrow> 's \<Rightarrow> fault + 's" where
  "for_loop idx n body s =
     (if int idx < n
      then (case body idx s of
              Inl e \<Rightarrow> Inl e
            | Inr s' \<Rightarrow> for_loop (Suc idx) n body s')
      else Inr s)"
  by pat_completeness auto
termination
  by (relation "measure (\<lambda>(idx, n, body, s). nat n - idx)") auto

declare for_loop.simps [simp del]

section \<open>The normalization pipeline\<close>

definition clip_to_limits :: "Scalar list \<Rightarrow> int \<Rightarrow> fault + (Scalar list \<times> action list)" where
  "clip_to_limits dminputs nbAct =
     for_loop 0 nbAct
       (\<lambda>idx (d, out).
          if idx < length d then
            (if d ! idx > 1 then Inr (d[idx := 1], out @ [Saturated (int idx + 1)])
             else if d ! idx < - 1 then Inr (d[idx := - 1], out @ [Saturated (int idx + 1)])
             else Inr (d, out))
          else Inl OutOfBounds)
       (dminputs, [])"

definition microns_to_fractional_stroke :: "Scalar list \<Rightarrow> int \<Rightarrow> Scalar \<Rightarrow> fault + Scalar list" where
  "microns_to_fractional_stroke dminputs nbAct max_stroke =
     for_loop 0 nbAct
       (\<lambda>idx d.
          if idx < length d then
            (if max_stroke = 0 then Inl NotAReal
             else Inr (d[idx := d ! idx / max_stroke]))
          else Inl OutOfBounds)
       dminputs"

definition normalize_inputs :: "Scalar list \<Rightarrow> int \<Rightarrow> Scalar \<Rightarrow> fault + Scalar list" where
  "normalize_inputs dminputs nbAct volume_factor =
     for_loop 0 nbAct
       (\<lambda>idx d.
          if idx < length d then Inr (d[idx := d ! idx * volume_factor])
          else Inl OutOfBounds)
       dminputs"

text \<open>
  \<open>mean /= nbAct\<close> divides by the \<open>int\<close> converted to \<open>double\<close>. For \<open>nbAct \<le> 0\<close> the
  quotient is never read: the second loop does not run.
\<close>

definition bias_inputs :: "Scalar list \<Rightarrow> int \<Rightarrow> fault + Scalar list" where
  "bias_inputs dminputs nbAct =
     (case for_loop 0 nbAct
             (\<lambda>idx mean.
                if idx < length dminputs then Inr (mean + dminputs ! idx)
                else Inl OutOfBounds)
             0 of
        Inl e \<Rightarrow> Inl e
      | Inr acc \<Rightarrow>
          (let mean = acc / of_int nbAct in
           for_loop 0 nbAct
             (\<lambda>idx d.
                if idx < length d then Inr (d[idx := d ! idx - mean])
                else Inl OutOfBounds)
             dminputs))"

section \<open>The command dispatcher\<close>

text \<open>
  \<open>sendCommand\<close>: \<open>send_ret\<close> is what \<open>asdkSend\<close> returns for this call, \<open>F\<close> the float
  array of the shared memory image. \<open>calloc(nbAct, sizeof(Scalar))\<close> gives \<open>nbAct\<close> zeros.
  The result is the returned status and the calls made: the saturation messages, then the
  vector handed to \<open>asdkSend\<close>.
\<close>

definition sendCommand ::
  "int \<Rightarrow> Scalar list \<Rightarrow> int \<Rightarrow> int \<Rightarrow> int \<Rightarrow> int \<Rightarrow> Scalar \<Rightarrow> Scalar \<Rightarrow> int list
     \<Rightarrow> fault + (int \<times> action list)" where
  "sendCommand send_ret F nbAct nobias nonorm fractional max_stroke volume_factor actuator_mapping =
     (case for_loop 0 nbAct
             (\<lambda>idx d.
                if idx < length d \<and> idx < length actuator_mapping
                   \<and> 0 \<le> actuator_mapping ! idx \<and> actuator_mapping ! idx < int (length F)
                then Inr (d[idx := F ! nat (actuator_mapping ! idx)])
                else Inl OutOfBounds)
             (replicate (nat nbAct) 0) of
        Inl e \<Rightarrow> Inl e
      | Inr d0 \<Rightarrow>
     (case (if nonorm \<noteq> 1 then normalize_inputs d0 nbAct volume_factor else Inr d0) of
        Inl e \<Rightarrow> Inl e
      | Inr d1 \<Rightarrow>
     (case (if fractional \<noteq> 1 then microns_to_fractional_stroke d1 nbAct max_stroke else Inr d1) of
        Inl e \<Rightarrow> Inl e
      | Inr d2 \<Rightarrow>
     (case (if nobias \<noteq> 1 then bias_inputs d2 nbAct else Inr d2) of
        Inl e \<Rightarrow> Inl e
      | Inr d3 \<Rightarrow>
     (case clip_to_limits d3 nbAct of
        Inl e \<Rightarrow> Inl e
      | Inr (d4, out) \<Rightarrow> Inr (send_ret, out @ [AsdkSend d4]))))))"

section \<open>The pipeline as the specification words it\<close>

text \<open>
  The four stages of the specification's section 4.3, each a function of the whole vector,
  and their composition in the stated order. They are compared with \<open>sendCommand\<close> below.
\<close>

definition spec_volume_normalization :: "Scalar \<Rightarrow> Scalar list \<Rightarrow> Scalar list" where
  "spec_volume_normalization volume_factor xs = map (\<lambda>x. x * volume_factor) xs"

definition spec_unit_conversion :: "Scalar \<Rightarrow> Scalar list \<Rightarrow> Scalar list" where
  "spec_unit_conversion max_stroke xs = map (\<lambda>x. x / max_stroke) xs"

definition spec_bias_removal :: "Scalar list \<Rightarrow> Scalar list" where
  "spec_bias_removal xs = map (\<lambda>x. x - sum_list xs / real (length xs)) xs"

definition spec_clamp :: "Scalar \<Rightarrow> Scalar" where
  "spec_clamp x = (if 1 < x then 1 else if x < - 1 then - 1 else x)"

definition spec_safety_clipping :: "Scalar list \<Rightarrow> Scalar list" where
  "spec_safety_clipping xs = map spec_clamp xs"

definition spec_saturated :: "Scalar list \<Rightarrow> nat list" where
  "spec_saturated xs = filter (\<lambda>i. 1 < \<bar>xs ! i\<bar>) [0..<length xs]"

definition spec_before_clipping ::
  "bool \<Rightarrow> bool \<Rightarrow> bool \<Rightarrow> Scalar \<Rightarrow> Scalar \<Rightarrow> Scalar list \<Rightarrow> Scalar list" where
  "spec_before_clipping norm_on conv_on bias_on volume_factor max_stroke input =
     (let s1 = (if norm_on then spec_volume_normalization volume_factor input else input);
          s2 = (if conv_on then spec_unit_conversion max_stroke s1 else s1)
      in (if bias_on then spec_bias_removal s2 else s2))"

section \<open>The clipping stage on the values of a C double\<close>

text \<open>
  \<open>clip_to_limits\<close> only compares the elements with \<open>1\<close> and \<open>-1\<close> and stores \<open>1\<close> or \<open>-1\<close>,
  so what it does on every value of a \<open>double\<close> is decided by the class of the value: a
  finite number, an infinity, or a NaN. A comparison with a NaN operand is false; rounding
  plays no part in a comparison.
\<close>

datatype double = Number real | PlusInf | MinusInf | NaN

text \<open>\<open>x > c\<close> and \<open>x < c\<close> for a \<open>double\<close> \<open>x\<close> and a finite constant \<open>c\<close>.\<close>

fun double_gt :: "double \<Rightarrow> real \<Rightarrow> bool" where
  "double_gt (Number x) c = (c < x)"
| "double_gt PlusInf c = True"
| "double_gt MinusInf c = False"
| "double_gt NaN c = False"

fun double_lt :: "double \<Rightarrow> real \<Rightarrow> bool" where
  "double_lt (Number x) c = (x < c)"
| "double_lt PlusInf c = False"
| "double_lt MinusInf c = True"
| "double_lt NaN c = False"

text \<open>\<open>clip_to_limits\<close> (lines 111 to 127 of the source) on such values.\<close>

definition clip_to_limits_double :: "double list \<Rightarrow> int \<Rightarrow> fault + (double list \<times> action list)" where
  "clip_to_limits_double dminputs nbAct =
     for_loop 0 nbAct
       (\<lambda>idx (d, out).
          if idx < length d then
            (if double_gt (d ! idx) 1
             then Inr (d[idx := Number 1], out @ [Saturated (int idx + 1)])
             else if double_lt (d ! idx) (- 1)
             then Inr (d[idx := Number (- 1)], out @ [Saturated (int idx + 1)])
             else Inr (d, out))
          else Inl OutOfBounds)
       (dminputs, [])"

section \<open>Shared memory initialization\<close>

text \<open>
  The zeroing loop of \<open>initializeSharedMemory\<close>, \<open>for (i = 0; i < 11*11; i++) F[i] = 0.\<close>:
  each store is recorded as \<open>WriteF i 0\<close>.
\<close>

function zero_image :: "nat \<Rightarrow> action list \<Rightarrow> action list" where
  "zero_image i acts =
     (if i < 11 * 11 then zero_image (Suc i) (acts @ [WriteF i 0]) else acts)"
  by pat_completeness auto
termination
  by (relation "measure (\<lambda>(i, acts). 11 * 11 - i)") auto

declare zero_image.simps [simp del]

text \<open>
  \<open>initializeSharedMemory(shm_name, ax1, ax2)\<close>. \<open>CreateIm naxis imsize shared NBkw\<close> is the
  call of \<open>ImageStreamIO_createIm\<close> for a float image; \<open>imsize\<close> is an array of \<open>uint32_t\<close>,
  so the \<open>int\<close> arguments are reduced modulo \<open>2^32\<close>. The argument \<open>-1\<close> of the semaphore
  calls means all semaphores.
\<close>

definition initializeSharedMemory :: "int \<Rightarrow> int \<Rightarrow> action list" where
  "initializeSharedMemory ax1 ax2 =
     zero_image 0 [CreateIm 2 [ax1 mod 2 ^ 32, ax2 mod 2 ^ 32] 1 10, SemFlush (- 1), SetWrite 1]
       @ [SemPost (- 1), SetWrite 0, IncCnt0, IncCnt1]"

section \<open>The calibration loader\<close>

text \<open>
  The \<open>while (getline(...) != -1)\<close> loop of \<open>parse_calibration_file\<close>:
  \<open>calibvals[idx] = strtod(line, NULL); idx++\<close>, into a block of two \<open>Scalar\<close>s.
\<close>

fun read_lines :: "(string \<Rightarrow> Scalar) \<Rightarrow> string list \<Rightarrow> nat \<Rightarrow> Scalar list \<Rightarrow> fault + Scalar list" where
  "read_lines strtod [] idx calibvals = Inr calibvals"
| "read_lines strtod (line # rest) idx calibvals =
     (if idx < length calibvals
      then read_lines strtod rest (Suc idx) (calibvals[idx := strtod line])
      else Inl OutOfBounds)"

text \<open>
  What \<open>parse_calibration_file\<close> returns: \<open>-1\<close>, with the two outputs untouched, or \<open>0\<close>
  with \<open>*max_stroke\<close> and \<open>*volume_factor\<close> assigned.
\<close>

datatype calib_ret = Ret_minus1 | Ret_0 Scalar Scalar

text \<open>
  \<open>parse_calibration_file\<close>. Its surroundings are parameters: \<open>alpao_calib\<close> is what
  \<open>getenv("alpao_calib")\<close> returns (\<open>None\<close> for NULL, which \<open>strcpy\<close> then dereferences),
  \<open>fp\<close> what \<open>fopen\<close> returns for the path built from it and the serial (\<open>None\<close> for NULL,
  else the lines of the file), \<open>strtod\<close> the library function, and \<open>calibvals_init\<close> the
  indeterminate contents of the block \<open>malloc(2*sizeof(Scalar))\<close> returns. The identifier
  and the buffers the path is built in (\<open>serial_lc\<close>, \<open>calibname\<close>, \<open>calibpath\<close>) are not
  modelled.
\<close>

definition parse_calibration_file ::
  "string option \<Rightarrow> string list option \<Rightarrow> (string \<Rightarrow> Scalar) \<Rightarrow> Scalar \<times> Scalar
     \<Rightarrow> fault + calib_ret" where
  "parse_calibration_file alpao_calib fp strtod calibvals_init =
     (case alpao_calib of
        None \<Rightarrow> Inl NullPointer
      | Some dir \<Rightarrow>
          (case fp of
             None \<Rightarrow> Inr Ret_minus1
           | Some file_lines \<Rightarrow>
               (case read_lines strtod file_lines 0 [fst calibvals_init, snd calibvals_init] of
                  Inl e \<Rightarrow> Inl e
                | Inr calibvals \<Rightarrow> Inr (Ret_0 (calibvals ! 0) (calibvals ! 1)))))"

section \<open>The actuator map loader\<close>

text \<open>
  What the CFITSIO calls of \<open>get_actuator_mapping\<close> answer for the opened file: the status
  \<open>fits_get_hdu_type\<close> returns and the type it reports, the dimension count and the two axis
  lengths of \<open>fits_get_img_dim\<close> and \<open>fits_get_img_size\<close> with the status after them, and for
  each row number \<open>fpixel[1]\<close> what \<open>fits_read_pix\<close> gives: an error status, or the row's
  pixels converted to \<open>int\<close>.
\<close>

record fitsfile =
  f_hdu_status :: int
  f_hdutype :: int
  f_naxis :: int
  f_naxes0 :: int
  f_naxes1 :: int
  f_img_status :: int
  f_read_pix :: "nat \<Rightarrow> int + int list"

text \<open>\<open>IMAGE_HDU\<close> of \<open>fitsio.h\<close> (the header is not part of the sources).\<close>

definition IMAGE_HDU :: int where
  "IMAGE_HDU = 0"

text \<open>The conversion of a \<open>long\<close> to the 32-bit \<open>int\<close> an entry of \<open>actuator_mapping\<close> is.\<close>

definition to_int32 :: "int \<Rightarrow> int" where
  "to_int32 x = (x + 2 ^ 31) mod 2 ^ 32 - 2 ^ 31"

text \<open>The largest \<open>int\<close> and the largest \<open>long\<close>.\<close>

definition INT_MAX :: int where
  "INT_MAX = 2 ^ 31 - 1"

definition LONG_MAX :: int where
  "LONG_MAX = 2 ^ 63 - 1"

text \<open>
  The row loop \<open>for (fpixel[1] = naxes[1]; fpixel[1] >= 1; fpixel[1]--)\<close>, counted down on
  \<open>fpixel[1] = Suc r\<close>, with the column loop inside. The state is the mapping array and the
  next free position \<open>ij\<close>. A failed \<open>fits_read_pix\<close> leaves the loop (\<open>break\<close>).
  \<open>fpixel\<close> and \<open>naxes\<close> are \<open>long\<close>, \<open>ii\<close> and \<open>ij\<close> are \<open>int\<close>: the index
  \<open>(fpixel[1]-1) * naxes[0] + ii\<close> is computed as a \<open>long\<close> and converted to the \<open>int\<close> it is
  stored in, and \<open>ij++\<close> and \<open>ii++\<close> overflow at \<open>INT_MAX\<close>.
\<close>

fun scan_rows :: "fitsfile \<Rightarrow> nat \<Rightarrow> int list \<times> nat \<Rightarrow> fault + (int list \<times> nat)" where
  "scan_rows f 0 s = Inr s"
| "scan_rows f (Suc r) s =
     (case f_read_pix f (Suc r) of
        Inl status \<Rightarrow> Inr s
      | Inr pix \<Rightarrow>
          (case for_loop 0 (f_naxes0 f)
                  (\<lambda>ii (am, ij).
                     if ii < length pix then
                       (case (if pix ! ii > 0 then
                                (if LONG_MAX < int r * f_naxes0 f + int ii then Inl SignedOverflow
                                 else if ij < length am then
                                   (if int ij = INT_MAX then Inl SignedOverflow
                                    else Inr (am[ij := to_int32 (int r * f_naxes0 f + int ii)],
                                              Suc ij))
                                 else Inl OutOfBounds)
                              else Inr (am, ij)) of
                          Inl e \<Rightarrow> Inl e
                        | Inr s' \<Rightarrow> if int ii = INT_MAX then Inl SignedOverflow else Inr s')
                     else Inl OutOfBounds)
                  s of
             Inl e \<Rightarrow> Inl e
           | Inr s' \<Rightarrow> scan_rows f r s'))"

text \<open>
  \<open>get_actuator_mapping\<close>. \<open>open_status\<close> is what \<open>fits_open_image\<close> returns (0 on success),
  \<open>pix_malloc_ok\<close> whether \<open>malloc\<close> of the row buffer succeeds. When the file was not
  opened, \<open>pix\<close> is still uninitialised at \<open>free(pix)\<close>: \<open>pix_uninit_null\<close> says whether the
  indeterminate pointer happens to be NULL (the only value \<open>free\<close> accepts).
  \<open>totpix = naxes[0] * naxes[1]\<close> is a product of \<open>long\<close>s. The result is the returned
  \<open>int\<close> and the mapping array as the function leaves it. The identifier and the buffers the
  path is built in (\<open>serial_lc\<close>, \<open>calibname\<close>, \<open>calibpath\<close>) are not modelled: the answer
  of \<open>fits_open_image\<close> for that path is the parameter.
\<close>

definition get_actuator_mapping ::
  "string option \<Rightarrow> int \<Rightarrow> fitsfile \<Rightarrow> bool \<Rightarrow> bool \<Rightarrow> int list \<Rightarrow> fault + (int \<times> int list)" where
  "get_actuator_mapping alpao_calib open_status f pix_malloc_ok pix_uninit_null actuator_mapping =
     (case alpao_calib of
        None \<Rightarrow> Inl NullPointer
      | Some dir \<Rightarrow>
          if open_status = 0 then
            (if f_hdu_status f \<noteq> 0 \<or> f_hdutype f \<noteq> IMAGE_HDU then Inr (1, actuator_mapping)
             else if f_img_status f \<noteq> 0 \<or> f_naxis f \<noteq> 2 then Inr (1, actuator_mapping)
             else if \<not> pix_malloc_ok then Inr (1, actuator_mapping)
             else if LONG_MAX < f_naxes0 f * f_naxes1 f \<or> f_naxes0 f * f_naxes1 f < - LONG_MAX - 1
             then Inl SignedOverflow
             else (case scan_rows f (nat (f_naxes1 f)) (actuator_mapping, 0) of
                     Inl e \<Rightarrow> Inl e
                   | Inr (am, ij) \<Rightarrow> Inr (0, am)))
          else if pix_uninit_null then Inr (0, actuator_mapping)
          else Inl InvalidFree)"

text \<open>
  The mapping as the specification words it: rows from the last to the first, columns left
  to right, the flattened index \<open>row * width + column\<close> of every strictly positive cell. The
  grid is the list of its rows, first row first.
\<close>

definition spec_row_indices :: "int list list \<Rightarrow> nat \<Rightarrow> nat \<Rightarrow> int list" where
  "spec_row_indices grid width row =
     map (\<lambda>column. int row * int width + int column)
       (filter (\<lambda>column. grid ! row ! column > 0) [0..<width])"

definition spec_mapping :: "int list list \<Rightarrow> nat \<Rightarrow> int list" where
  "spec_mapping grid width =
     concat (map (spec_row_indices grid width) (rev [0..<length grid]))"

definition spec_positive_cells :: "int list list \<Rightarrow> nat" where
  "spec_positive_cells grid = sum_list (map (\<lambda>row. length (filter (\<lambda>v. v > 0) row)) grid)"

text \<open>The file a grid of the given width is read from.\<close>

definition fits_of_grid :: "int list list \<Rightarrow> nat \<Rightarrow> fitsfile" where
  "fits_of_grid grid width =
     \<lparr> f_hdu_status = 0, f_hdutype = IMAGE_HDU, f_naxis = 2,
       f_naxes0 = int width, f_naxes1 = int (length grid), f_img_status = 0,
       f_read_pix = (\<lambda>row. if 1 \<le> row \<and> row \<le> length grid then Inr (grid ! (row - 1)) else Inl 1) \<rparr>"

section \<open>The control loop\<close>

text \<open>
  How a run of \<open>controlLoop\<close> ends: it returns a value, it waits for ever in
  \<open>ImageStreamIO_semwait\<close> (no further post arrives), or it leaves what the model
  defines (a \<open>fault\<close>).
\<close>

datatype outcome = Returned int | Blocked | Faulted fault

text \<open>
  One return of \<open>ImageStreamIO_semwait\<close> inside the \<open>while (!stop)\<close> loop, with what the
  surroundings do around it. \<open>stop\<close> is written by \<open>handle_signal\<close> only, and only to 1, so
  the two tests of a pass read \<open>stop\<close> as set iff it was set before or a SIGINT has been
  handled since: \<open>w_sigint_before_test\<close> between the previous read and the \<open>while (!stop)\<close>
  test, \<open>w_sigint_in_wait\<close> between that test and the \<open>if (!stop)\<close> test after the wait.
  \<open>w_frame\<close> is the float array of the image when the wait returns, \<open>w_send_ret\<close> what
  \<open>asdkSend\<close> returns if it is called in this pass.
\<close>

record wake =
  w_sigint_before_test :: bool
  w_sigint_in_wait :: bool
  w_frame :: "Scalar list"
  w_send_ret :: int

text \<open>The local variables of \<open>controlLoop\<close> that the loop reads.\<close>

record locals =
  l_nbAct :: int
  l_nobias :: int
  l_nonorm :: int
  l_fractional :: int
  l_max_stroke :: Scalar
  l_volume_factor :: Scalar
  l_actuator_mapping :: "int list"
  l_release_ret :: int

text \<open>
  The code after the loop: \<open>asdkReset(dm); ret = asdkRelease(dm); return ret\<close>.
\<close>

definition shutdown :: "locals \<Rightarrow> action list \<Rightarrow> outcome \<times> action list" where
  "shutdown l acts = (Returned (l_release_ret l), acts @ [AsdkReset, AsdkRelease])"

text \<open>
  The \<open>while (!stop)\<close> loop and the code after it. \<open>stop\<close> is the value of the flag at the
  previous read, the list holds the returns of \<open>ImageStreamIO_semwait\<close> still to come, \<open>acts\<close> the
  calls made so far. When no return is left and the flag is clear the wait never ends.
\<close>

fun control_loop :: "locals \<Rightarrow> bool \<Rightarrow> wake list \<Rightarrow> action list \<Rightarrow> outcome \<times> action list" where
  "control_loop l stop [] acts =
     (if stop then shutdown l acts else (Blocked, acts @ [SemWait 0]))"
| "control_loop l stop (w # ws) acts =
     (if stop \<or> w_sigint_before_test w then shutdown l acts
      else if \<not> w_sigint_in_wait w then
        (case sendCommand (w_send_ret w) (w_frame w) (l_nbAct l) (l_nobias l) (l_nonorm l)
                (l_fractional l) (l_max_stroke l) (l_volume_factor l) (l_actuator_mapping l) of
           Inl e \<Rightarrow> (Faulted e, acts @ [SemWait 0])
         | Inr (ret, sent) \<Rightarrow>
             if ret = - 1 then (Returned (- 1), acts @ [SemWait 0] @ sent)
             else control_loop l False ws (acts @ [SemWait 0] @ sent))
      else control_loop l True ws (acts @ [SemWait 0]))"

text \<open>
  The surroundings of a run of \<open>controlLoop\<close>: the parameters of the two loaders, the answers
  of the SDK (\<open>asdkInit\<close> returning a handle or NULL, the status and value of
  \<open>asdkGet(dm, "NbOfActuator", &tmp)\<close>, the status of \<open>asdkRelease\<close>), the indeterminate
  contents of the block \<open>malloc(nbAct * sizeof(int))\<close> returns, the metadata of the image
  \<open>ImageStreamIO_read_sharedmem_image_toIMAGE\<close> attaches, the first return of
  \<open>ImageStreamIO_semwait\<close> (frame and status of \<open>asdkSend\<close>; \<open>None\<close> if it never returns)
  and the later ones.
\<close>

record env =
  e_alpao_calib :: "string option"
  e_calib_file :: "string list option"
  e_strtod :: "string \<Rightarrow> Scalar"
  e_calibvals_init :: "Scalar \<times> Scalar"
  e_asdkInit_ok :: bool
  e_asdkGet_ret :: int
  e_asdkGet_tmp :: Scalar
  e_asdkRelease_ret :: int
  e_open_status :: int
  e_fits :: fitsfile
  e_pix_malloc_ok :: bool
  e_pix_uninit_null :: bool
  e_mapping_init :: "nat \<Rightarrow> int"
  e_shm_naxis :: int
  e_shm_size0 :: int
  e_shm_size1 :: int
  e_first_wake :: "(Scalar list \<times> int) option"
  e_wakes :: "wake list"

text \<open>
  \<open>nbAct = (UInt) tmp\<close>: the conversion of a \<open>double\<close> to \<open>unsigned int\<close> truncates towards
  zero and is undefined when the truncated value is not representable. \<open>nbAct\<close> is then passed
  where an \<open>int\<close> is expected.
\<close>

definition UInt_of_Scalar :: "Scalar \<Rightarrow> fault + int" where
  "UInt_of_Scalar x =
     (if - 1 < x \<and> x < 2 ^ 32 then Inr (if x < 0 then 0 else \<lfloor>x\<rfloor>) else Inl BadConversion)"

definition int_of_UInt :: "int \<Rightarrow> int" where
  "int_of_UInt n = (if n < 2 ^ 31 then n else n - 2 ^ 32)"

text \<open>
  \<open>controlLoop\<close>, with \<open>shm_dim = 11\<close>. The parts in order: the calibration file, \<open>asdkInit\<close>,
  \<open>asdkGet\<close>, the actuator mapping (whose return value is not read), the shared memory
  image and its validation, the first wait and dispatch, and the loop. \<open>stop = 0\<close> precedes
  the loop.
\<close>

definition controlLoop :: "env \<Rightarrow> int \<Rightarrow> int \<Rightarrow> int \<Rightarrow> outcome \<times> action list" where
  "controlLoop E nobias nonorm fractional =
     (case parse_calibration_file (e_alpao_calib E) (e_calib_file E) (e_strtod E)
             (e_calibvals_init E) of
        Inl e \<Rightarrow> (Faulted e, [])
      | Inr Ret_minus1 \<Rightarrow> (Returned (- 1), [])
      | Inr (Ret_0 max_stroke volume_factor) \<Rightarrow>
     if \<not> e_asdkInit_ok E then (Returned (- 1), [AsdkInit])
     else if e_asdkGet_ret E = - 1 then (Returned (- 1), [AsdkInit, AsdkGet])
     else
     (case UInt_of_Scalar (e_asdkGet_tmp E) of
        Inl e \<Rightarrow> (Faulted e, [AsdkInit, AsdkGet])
      | Inr nbAct \<Rightarrow>
     (case get_actuator_mapping (e_alpao_calib E) (e_open_status E) (e_fits E)
             (e_pix_malloc_ok E) (e_pix_uninit_null E)
             (map (e_mapping_init E) [0..<nat nbAct]) of
        Inl e \<Rightarrow> (Faulted e, [AsdkInit, AsdkGet])
      | Inr (ret, actuator_mapping) \<Rightarrow>
     (let acts = [AsdkInit, AsdkGet] @ initializeSharedMemory 11 11 @ [ReadSharedMem] in
      if e_shm_naxis E \<noteq> 2 then (Returned (- 1), acts)
      else if e_shm_size0 E \<noteq> 11 then (Returned (- 1), acts)
      else if e_shm_size1 E \<noteq> 11 then (Returned (- 1), acts)
      else
     (case e_first_wake E of
        None \<Rightarrow> (Blocked, acts @ [SemWait 0])
      | Some (frame, send_ret) \<Rightarrow>
     (case sendCommand send_ret frame (int_of_UInt nbAct) nobias nonorm fractional
             max_stroke volume_factor actuator_mapping of
        Inl e \<Rightarrow> (Faulted e, acts @ [SemWait 0])
      | Inr (ret, sent) \<Rightarrow>
          if ret = - 1 then (Returned (- 1), acts @ [SemWait 0] @ sent)
          else control_loop
                 \<lparr> l_nbAct = int_of_UInt nbAct, l_nobias = nobias, l_nonorm = nonorm,
                   l_fractional = fractional, l_max_stroke = max_stroke,
                   l_volume_factor = volume_factor, l_actuator_mapping = actuator_mapping,
                   l_release_ret = e_asdkRelease_ret E \<rparr>
                 False (e_wakes E) (acts @ [SemWait 0] @ sent)))))))"

section \<open>Concrete surroundings\<close>

text \<open>
  A small run, used to evaluate the model: a device with two actuators, a mask of one row
  with two active cells, a shared memory image of \<open>11 \<times> 11\<close> zeros, and after the first
  dispatch one more return of the wait, during which a SIGINT is handled. The calibration
  file is the parameter.
\<close>

definition example_strtod :: "string \<Rightarrow> Scalar" where
  "example_strtod s = (if s = ''3.17'' then 317 / 100 else if s = ''0.454'' then 454 / 1000 else 0)"

definition example_wake :: "bool \<Rightarrow> int \<Rightarrow> wake" where
  "example_wake sigint status =
     \<lparr> w_sigint_before_test = False, w_sigint_in_wait = sigint,
       w_frame = replicate 121 0, w_send_ret = status \<rparr>"

definition example_env :: "string list option \<Rightarrow> env" where
  "example_env calib =
     \<lparr> e_alpao_calib = Some ''/opt/alpao'', e_calib_file = calib,
       e_strtod = example_strtod, e_calibvals_init = (7, 9),
       e_asdkInit_ok = True, e_asdkGet_ret = 0, e_asdkGet_tmp = 2, e_asdkRelease_ret = 0,
       e_open_status = 0, e_fits = fits_of_grid [[1, 1]] 2,
       e_pix_malloc_ok = True, e_pix_uninit_null = False, e_mapping_init = (\<lambda>i. 0),
       e_shm_naxis = 2, e_shm_size0 = 11, e_shm_size1 = 11,
       e_first_wake = Some (replicate 121 0, 0),
       e_wakes = [example_wake True 0] \<rparr>"

definition example_locals :: locals where
  "example_locals =
     \<lparr> l_nbAct = 2, l_nobias = 0, l_nonorm = 0, l_fractional = 0,
       l_max_stroke = 317 / 100, l_volume_factor = 454 / 1000,
       l_actuator_mapping = [0, 1], l_release_ret = 0 \<rparr>"

section \<open>Properties of the loops\<close>

lemma for_loop_done: "\<not> int idx < n \<Longrightarrow> for_loop idx n body s = Inr s"
  by (simp add: for_loop.simps)

lemma for_loop_step:
  "int idx < n \<Longrightarrow> body idx s = Inr s' \<Longrightarrow> for_loop idx n body s = for_loop (Suc idx) n body s'"
  by (simp add: for_loop.simps)

lemma for_loop_update:
  assumes body: "\<And>idx d. int idx < n \<Longrightarrow> idx < length d \<Longrightarrow> ok idx
                   \<Longrightarrow> body idx d = Inr (d[idx := g idx (d ! idx)])"
    and len: "n \<le> int (length d)"
    and ok: "\<And>idx. i \<le> idx \<Longrightarrow> int idx < n \<Longrightarrow> ok idx"
  shows "\<exists>d'. for_loop i n body d = Inr d' \<and> length d' = length d
           \<and> (\<forall>j<length d. d' ! j = (if i \<le> j \<and> int j < n then g j (d ! j) else d ! j))"
  using len ok
proof (induction "nat n - i" arbitrary: i d)
  case 0
  then have "\<not> int i < n" by linarith
  then show ?case by (auto simp: for_loop_done)
next
  case (Suc k)
  then have lt: "int i < n" by linarith
  with Suc.prems have il: "i < length d" by linarith
  have oki: "ok i" using Suc.prems lt by simp
  let ?d = "d[i := g i (d ! i)]"
  have step: "for_loop i n body d = for_loop (Suc i) n body ?d"
    using lt il oki by (simp add: for_loop_step body)
  have k: "k = nat n - Suc i" using Suc.hyps(2) by linarith
  have len': "n \<le> int (length ?d)" using Suc.prems by simp
  have ok': "\<And>idx. Suc i \<le> idx \<Longrightarrow> int idx < n \<Longrightarrow> ok idx" using Suc.prems by simp
  from Suc.hyps(1)[OF k len' ok'] obtain d' where
    d': "for_loop (Suc i) n body ?d = Inr d'" "length d' = length ?d"
        "\<forall>j<length ?d. d' ! j = (if Suc i \<le> j \<and> int j < n then g j (?d ! j) else ?d ! j)"
    by blast
  have "\<forall>j<length d. d' ! j = (if i \<le> j \<and> int j < n then g j (d ! j) else d ! j)"
  proof (intro allI impI)
    fix j assume j: "j < length d"
    show "d' ! j = (if i \<le> j \<and> int j < n then g j (d ! j) else d ! j)"
    proof (cases "j = i")
      case True
      then show ?thesis using d'(3) j lt il by simp
    next
      case False
      then show ?thesis using d'(3) j by (auto simp: nth_list_update)
    qed
  qed
  then show ?case using step d' by simp
qed

lemma clip_loop:
  assumes len: "n \<le> int (length d)"
  shows "\<exists>d'. for_loop i n
           (\<lambda>idx (d, out).
              if idx < length d then
                (if d ! idx > 1 then Inr (d[idx := 1], out @ [Saturated (int idx + 1)])
                 else if d ! idx < - 1 then Inr (d[idx := - 1], out @ [Saturated (int idx + 1)])
                 else Inr (d, out))
              else Inl OutOfBounds)
           (d, out)
         = Inr (d', out @ map (\<lambda>j. Saturated (int j + 1)) (filter (\<lambda>j. 1 < \<bar>d ! j\<bar>) [i..<nat n]))
         \<and> length d' = length d
         \<and> (\<forall>j<length d. d' ! j = (if i \<le> j \<and> int j < n then spec_clamp (d ! j) else d ! j))"
    (is "\<exists>d'. for_loop i n ?body (d, out) = Inr (d', ?out i d out) \<and> ?P i d d'")
  using len
proof (induction "nat n - i" arbitrary: i d out)
  case 0
  then have "\<not> int i < n" by linarith
  then show ?case by (auto simp: for_loop_done)
next
  case (Suc k)
  then have lt: "int i < n" by linarith
  with Suc.prems have il: "i < length d" by linarith
  have k: "k = nat n - Suc i" using Suc.hyps(2) by linarith
  have upt: "[i..<nat n] = i # [Suc i..<nat n]" using lt by (simp add: upt_conv_Cons)
  define v where "v = spec_clamp (d ! i)"
  define o1 where "o1 = (if 1 < \<bar>d ! i\<bar> then out @ [Saturated (int i + 1)] else out)"
  let ?d = "d[i := v]"
  have b: "?body i (d, out) = Inr (?d, o1)"
    using il by (auto simp: v_def o1_def spec_clamp_def)
  have step: "for_loop i n ?body (d, out) = for_loop (Suc i) n ?body (?d, o1)"
    using lt b by (rule for_loop_step)
  have len': "n \<le> int (length ?d)" using Suc.prems by simp
  from Suc.hyps(1)[OF k len', of o1] obtain d' where
    d': "for_loop (Suc i) n ?body (?d, o1) = Inr (d', ?out (Suc i) ?d o1)" "?P (Suc i) ?d d'"
    by blast
  have flt: "filter (\<lambda>j. 1 < \<bar>?d ! j\<bar>) [Suc i..<nat n] = filter (\<lambda>j. 1 < \<bar>d ! j\<bar>) [Suc i..<nat n]"
    by (rule filter_cong) auto
  have out: "?out (Suc i) ?d o1 = ?out i d out"
    unfolding flt by (simp add: upt o1_def)
  have "?P i d d'"
  proof (intro conjI allI impI)
    show "length d' = length d" using d'(2) by simp
  next
    fix j assume j: "j < length d"
    show "d' ! j = (if i \<le> j \<and> int j < n then spec_clamp (d ! j) else d ! j)"
    proof (cases "j = i")
      case True
      then show ?thesis using d'(2) j lt il by (simp add: v_def)
    next
      case False
      then show ?thesis using d'(2) j by (auto simp: nth_list_update)
    qed
  qed
  then show ?case using step d'(1) out by auto
qed

lemma sum_loop:
  assumes len: "n \<le> int (length d)"
  shows "for_loop i n
           (\<lambda>idx mean. if idx < length d then Inr (mean + d ! idx) else Inl OutOfBounds) (m::real)
         = Inr (m + sum_list (map (\<lambda>j. d ! j) [i..<nat n]))"
  using len
proof (induction "nat n - i" arbitrary: i m)
  case 0
  then have "\<not> int i < n" "[i..<nat n] = []" by auto
  then show ?case by (simp add: for_loop_done)
next
  case (Suc k)
  then have lt: "int i < n" by linarith
  with Suc.prems have il: "i < length d" by linarith
  have k: "k = nat n - Suc i" using Suc.hyps(2) by linarith
  have upt: "[i..<nat n] = i # [Suc i..<nat n]" using lt by (simp add: upt_conv_Cons)
  show ?case
    using Suc.hyps(1)[OF k Suc.prems, of "m + d ! i"] lt il
    by (simp add: for_loop.simps[of i] upt)
qed


subsection \<open>Whole functions\<close>

lemma clip_to_limits_result:
  assumes "nbAct \<le> int (length xs)"
  shows "\<exists>ys. clip_to_limits xs nbAct
            = Inr (ys, map (\<lambda>j. Saturated (int j + 1)) (filter (\<lambda>j. 1 < \<bar>xs ! j\<bar>) [0..<nat nbAct]))
          \<and> length ys = length xs
          \<and> (\<forall>j<length xs. ys ! j = (if int j < nbAct then spec_clamp (xs ! j) else xs ! j))"
  using clip_loop[OF assms, of 0 "[]"] by (simp add: clip_to_limits_def)

lemma clip_to_limits_full:
  assumes "length xs = nat nbAct"
  shows "clip_to_limits xs nbAct
           = Inr (spec_safety_clipping xs, map (\<lambda>j. Saturated (int j + 1)) (spec_saturated xs))"
proof -
  have le: "nbAct \<le> int (length xs)" using assms by linarith
  from clip_to_limits_result[OF le] obtain ys where
    ys: "clip_to_limits xs nbAct
            = Inr (ys, map (\<lambda>j. Saturated (int j + 1)) (filter (\<lambda>j. 1 < \<bar>xs ! j\<bar>) [0..<nat nbAct]))"
        "length ys = length xs"
        "\<forall>j<length xs. ys ! j = (if int j < nbAct then spec_clamp (xs ! j) else xs ! j)"
    by blast
  have "ys = map spec_clamp xs"
    using ys(2,3) assms by (intro nth_equalityI) auto
  then show ?thesis using ys(1) assms by (simp add: spec_safety_clipping_def spec_saturated_def)
qed

lemma update_loop_full:
  assumes body: "\<And>idx d. int idx < n \<Longrightarrow> idx < length d \<Longrightarrow> body idx d = Inr (d[idx := g (d ! idx)])"
    and len: "length d = nat n"
  shows "for_loop 0 n body d = Inr (map g d)"
proof -
  have le: "n \<le> int (length d)" using len by linarith
  from for_loop_update[where ok="\<lambda>_. True" and g="\<lambda>_. g" and body=body and n=n and d=d and i=0, OF _ le]
  obtain d' where d': "for_loop 0 n body d = Inr d'" "length d' = length d"
      "\<forall>j<length d. d' ! j = (if int j < n then g (d ! j) else d ! j)"
    using body by auto
  have "d' = map g d" using d'(2,3) len by (intro nth_equalityI) auto
  then show ?thesis using d'(1) by simp
qed

lemma normalize_inputs_full:
  "length d = nat nbAct \<Longrightarrow> normalize_inputs d nbAct vf = Inr (spec_volume_normalization vf d)"
  unfolding normalize_inputs_def spec_volume_normalization_def
  by (rule update_loop_full) auto

lemma microns_to_fractional_stroke_full:
  "length d = nat nbAct \<Longrightarrow> max_stroke \<noteq> 0
     \<Longrightarrow> microns_to_fractional_stroke d nbAct max_stroke = Inr (spec_unit_conversion max_stroke d)"
  unfolding microns_to_fractional_stroke_def spec_unit_conversion_def
  by (rule update_loop_full) auto

lemma bias_inputs_full:
  assumes "length d = nat nbAct"
  shows "bias_inputs d nbAct = Inr (spec_bias_removal d)"
proof -
  have le: "nbAct \<le> int (length d)" using assms by linarith
  have s: "sum_list (map (\<lambda>j. d ! j) [0..<nat nbAct]) = sum_list d"
    using assms by (metis map_nth)
  have m: "map (\<lambda>x. x - sum_list d / of_int nbAct) d = spec_bias_removal d"
  proof (cases "d = []")
    case True
    then show ?thesis by (simp add: spec_bias_removal_def)
  next
    case False
    then have "0 < nbAct" using assms by (cases "0 < nbAct") auto
    then have "int (length d) = nbAct" using assms by simp
    then have "(of_int nbAct :: real) = of_int (int (length d))" by simp
    then have "of_int nbAct = real (length d)" by simp
    then show ?thesis by (simp add: spec_bias_removal_def)
  qed
  have "for_loop 0 nbAct
          (\<lambda>idx da. if idx < length da then Inr (da[idx := da ! idx - sum_list d / of_int nbAct])
                     else Inl OutOfBounds) d
        = Inr (map (\<lambda>x. x - sum_list d / of_int nbAct) d)"
    by (rule update_loop_full) (auto simp: assms)
  then show ?thesis
    by (simp add: bias_inputs_def sum_loop[OF le] s m)
qed

lemma gather_full:
  assumes "nat nbAct \<le> length actuator_mapping"
    and "\<forall>i<nat nbAct. 0 \<le> actuator_mapping ! i \<and> actuator_mapping ! i < int (length F)"
  shows "for_loop 0 nbAct
           (\<lambda>idx d.
              if idx < length d \<and> idx < length actuator_mapping
                 \<and> 0 \<le> actuator_mapping ! idx \<and> actuator_mapping ! idx < int (length F)
              then Inr (d[idx := F ! nat (actuator_mapping ! idx)])
              else Inl OutOfBounds)
           (replicate (nat nbAct) (0::real))
         = Inr (map (\<lambda>i. F ! nat (actuator_mapping ! i)) [0..<nat nbAct])"
    (is "for_loop 0 nbAct ?body ?d = _")
proof -
  have le: "nbAct \<le> int (length ?d)" by simp
  have "\<exists>d'. for_loop 0 nbAct ?body ?d = Inr d' \<and> length d' = length ?d
           \<and> (\<forall>j<length ?d. d' ! j = (if 0 \<le> j \<and> int j < nbAct
                   then (\<lambda>i _. F ! nat (actuator_mapping ! i)) j (?d ! j) else ?d ! j))"
    by (rule for_loop_update[where ok="\<lambda>i. i < nat nbAct", OF _ le]) (use assms in auto)
  then obtain d' where d0: "for_loop 0 nbAct ?body ?d = Inr d'" "length d' = length ?d"
      "\<forall>j<length ?d. d' ! j = (if 0 \<le> j \<and> int j < nbAct
                   then (\<lambda>i _. F ! nat (actuator_mapping ! i)) j (?d ! j) else ?d ! j)"
    by blast
  have d': "for_loop 0 nbAct ?body ?d = Inr d'" "length d' = nat nbAct"
      "\<forall>j<nat nbAct. d' ! j = F ! nat (actuator_mapping ! j)"
    using d0 by auto
  have "d' = map (\<lambda>i. F ! nat (actuator_mapping ! i)) [0..<nat nbAct]"
    using d'(2,3) by (intro nth_equalityI) auto
  then show ?thesis using d'(1) by simp
qed

lemma length_spec_before_clipping [simp]:
  "length (spec_before_clipping a b c vf ms xs) = length xs"
  by (simp add: spec_before_clipping_def Let_def spec_volume_normalization_def
      spec_unit_conversion_def spec_bias_removal_def)

lemma sendCommand_result:
  assumes "nat nbAct \<le> length actuator_mapping"
    and "\<forall>i<nat nbAct. 0 \<le> actuator_mapping ! i \<and> actuator_mapping ! i < int (length F)"
    and "fractional \<noteq> 1 \<longrightarrow> max_stroke \<noteq> 0"
  shows "sendCommand send_ret F nbAct nobias nonorm fractional max_stroke volume_factor actuator_mapping =
     (let input = map (\<lambda>i. F ! nat (actuator_mapping ! i)) [0..<nat nbAct];
          v = spec_before_clipping (nonorm \<noteq> 1) (fractional \<noteq> 1) (nobias \<noteq> 1)
                volume_factor max_stroke input
      in Inr (send_ret, map (\<lambda>i. Saturated (int i + 1)) (spec_saturated v)
                          @ [AsdkSend (spec_safety_clipping v)]))"
  using assms(3)
  by (simp add: sendCommand_def gather_full[OF assms(1,2)] normalize_inputs_full
      microns_to_fractional_stroke_full bias_inputs_full clip_to_limits_full
      spec_before_clipping_def Let_def spec_volume_normalization_def
      spec_unit_conversion_def spec_bias_removal_def)

lemma count_list_distinct: "distinct xs \<Longrightarrow> count_list xs x = (if x \<in> set xs then 1 else 0)"
  by (induction xs) auto

lemma count_saturated:
  "count_list (map (\<lambda>j. Saturated (int j + 1)) (filter P [0..<n])) (Saturated (int i + 1))
     = (if i < n \<and> P i then 1 else 0)"
proof -
  have "inj (\<lambda>j. Saturated (int j + 1))" by (auto simp: inj_def)
  then have "count_list (map (\<lambda>j. Saturated (int j + 1)) (filter P [0..<n])) (Saturated (int i + 1))
      = count_list (filter P [0..<n]) i"
    by (rule count_list_map_conv)
  also have "\<dots> = (if i < n \<and> P i then 1 else 0)"
    by (simp add: count_list_distinct)
  finally show ?thesis .
qed

lemma spec_clamp_range: "- 1 \<le> spec_clamp x \<and> spec_clamp x \<le> 1"
  by (simp add: spec_clamp_def)

lemma spec_clamp_idem: "spec_clamp (spec_clamp x) = spec_clamp x"
  by (simp add: spec_clamp_def)

lemma spec_clamp_not_saturated: "\<not> 1 < \<bar>spec_clamp x\<bar>"
  by (auto simp: spec_clamp_def)

lemma for_loop_length:
  assumes body: "\<And>idx d d'. body idx d = Inr d' \<Longrightarrow> length d' = length (d :: 'a list)"
  shows "for_loop i n body d = Inr d' \<Longrightarrow> length d' = length d"
proof (induction "nat n - i" arbitrary: i d)
  case 0
  then have "\<not> int i < n" by linarith
  then show ?case using "0.prems" by (simp add: for_loop_done)
next
  case (Suc k)
  then have lt: "int i < n" by linarith
  have k: "k = nat n - Suc i" using Suc.hyps(2) by linarith
  obtain s' where s': "body i d = Inr s'"
    using Suc.prems lt by (auto simp: for_loop.simps[of i] split: sum.splits)
  then have "for_loop (Suc i) n body s' = Inr d'"
    using Suc.prems lt by (simp add: for_loop.simps[of i])
  then have "length d' = length s'" by (rule Suc.hyps(1)[OF k])
  then show ?case using body[OF s'] by simp
qed

lemma normalize_inputs_length:
  "normalize_inputs d n vf = Inr d' \<Longrightarrow> length d' = length d"
  unfolding normalize_inputs_def
  by (erule for_loop_length[rotated]) (auto split: if_splits)

lemma microns_to_fractional_stroke_length:
  "microns_to_fractional_stroke d n ms = Inr d' \<Longrightarrow> length d' = length d"
  unfolding microns_to_fractional_stroke_def
  by (erule for_loop_length[rotated]) (auto split: if_splits)

lemma bias_inputs_length:
  "bias_inputs d n = Inr d' \<Longrightarrow> length d' = length d"
  unfolding bias_inputs_def Let_def
  by (auto split: sum.splits elim!: for_loop_length[rotated] split: if_splits)

lemma gather_length:
  "for_loop 0 nbAct
           (\<lambda>idx d.
              if idx < length d \<and> idx < length actuator_mapping
                 \<and> 0 \<le> actuator_mapping ! idx \<and> actuator_mapping ! idx < int (length F)
              then Inr (d[idx := F ! nat (actuator_mapping ! idx)])
              else Inl OutOfBounds)
           (replicate (nat nbAct) (0::real)) = Inr d' \<Longrightarrow> length d' = nat nbAct"
  by (drule for_loop_length[rotated]) (auto split: if_splits)

lemma sendCommand_dispatched:
  assumes "sendCommand send_ret F nbAct nobias nonorm fractional max_stroke volume_factor
             actuator_mapping = Inr (ret, acts)"
  shows "\<exists>v. length v = nat nbAct \<and> ret = send_ret
           \<and> acts = map (\<lambda>i. Saturated (int i + 1)) (spec_saturated v)
                      @ [AsdkSend (spec_safety_clipping v)]"
proof -
  from assms obtain d0 d1 d2 d3 d4 out where
    d0: "for_loop 0 nbAct
           (\<lambda>idx d.
              if idx < length d \<and> idx < length actuator_mapping
                 \<and> 0 \<le> actuator_mapping ! idx \<and> actuator_mapping ! idx < int (length F)
              then Inr (d[idx := F ! nat (actuator_mapping ! idx)])
              else Inl OutOfBounds)
           (replicate (nat nbAct) (0::real)) = Inr d0"
    and d1: "(if nonorm \<noteq> 1 then normalize_inputs d0 nbAct volume_factor else Inr d0) = Inr d1"
    and d2: "(if fractional \<noteq> 1 then microns_to_fractional_stroke d1 nbAct max_stroke else Inr d1) = Inr d2"
    and d3: "(if nobias \<noteq> 1 then bias_inputs d2 nbAct else Inr d2) = Inr d3"
    and d4: "clip_to_limits d3 nbAct = Inr (d4, out)"
    and r: "ret = send_ret" "acts = out @ [AsdkSend d4]"
    unfolding sendCommand_def by (auto split: sum.splits prod.splits)
  have "length d0 = nat nbAct" using d0 by (rule gather_length)
  then have "length d1 = nat nbAct" using d1 by (auto split: if_splits dest: normalize_inputs_length)
  then have "length d2 = nat nbAct" using d2 by (auto split: if_splits dest: microns_to_fractional_stroke_length)
  then have l3: "length d3 = nat nbAct" using d3 by (auto split: if_splits dest: bias_inputs_length)
  show ?thesis using d4 r l3 by (auto simp: clip_to_limits_full[OF l3])
qed

subsection \<open>Safety clipping\<close>

text \<open>
  Safety clipping of finite values. When \<open>clip_to_limits\<close> runs over the first \<open>nbAct\<close>
  elements of a vector of reals that holds at least that many, it returns, every one of those
  elements then lies in \<open>[-1, 1]\<close>, and the messages printed are exactly one
  \<open>Saturated (i + 1)\<close> for each index \<open>i\<close> whose value before clipping had a magnitude
  above 1 (the message names the actuator by its 1-based number) and none for any other index.
  Whenever \<open>sendCommand\<close> returns on reals, the vector it handed to \<open>asdkSend\<close> has
  \<open>nbAct\<close> elements, all in \<open>[-1, 1]\<close>. This says nothing of a NaN, which is not a real.
\<close>

lemma clip_to_limits_finite:
  "(nbAct \<le> int (length dminputs) \<longrightarrow>
      (\<exists>d out. clip_to_limits dminputs nbAct = Inr (d, out) \<and> length d = length dminputs
         \<and> (\<forall>i. int i < nbAct \<longrightarrow>
                - 1 \<le> d ! i \<and> d ! i \<le> 1
                \<and> count_list out (Saturated (int i + 1)) = (if 1 < \<bar>dminputs ! i\<bar> then 1 else 0))
         \<and> (\<forall>a\<in>set out. \<exists>i. int i < nbAct \<and> a = Saturated (int i + 1))))
   \<and> (sendCommand send_ret F nbAct nobias nonorm fractional max_stroke volume_factor
         actuator_mapping = Inr (ret, acts) \<longrightarrow>
      (\<exists>out d. acts = out @ [AsdkSend d] \<and> length d = nat nbAct
         \<and> (\<forall>x\<in>set d. - 1 \<le> x \<and> x \<le> 1)))"
proof (intro conjI impI)
  assume le: "nbAct \<le> int (length dminputs)"
  let ?out = "map (\<lambda>j. Saturated (int j + 1)) (filter (\<lambda>j. 1 < \<bar>dminputs ! j\<bar>) [0..<nat nbAct])"
  from clip_to_limits_result[OF le] obtain d where
    d: "clip_to_limits dminputs nbAct = Inr (d, ?out)" "length d = length dminputs"
       "\<forall>j<length dminputs. d ! j = (if int j < nbAct then spec_clamp (dminputs ! j) else dminputs ! j)"
    by blast
  have "\<forall>i. int i < nbAct \<longrightarrow>
                - 1 \<le> d ! i \<and> d ! i \<le> 1
                \<and> count_list ?out (Saturated (int i + 1)) = (if 1 < \<bar>dminputs ! i\<bar> then 1 else 0)"
  proof (intro allI impI)
    fix i assume i: "int i < nbAct"
    then have "i < length dminputs" using le by linarith
    then have "d ! i = spec_clamp (dminputs ! i)" using d(3) i by simp
    moreover have "i < nat nbAct" using i by linarith
    ultimately show "- 1 \<le> d ! i \<and> d ! i \<le> 1
                \<and> count_list ?out (Saturated (int i + 1)) = (if 1 < \<bar>dminputs ! i\<bar> then 1 else 0)"
      by (simp add: spec_clamp_range count_saturated)
  qed
  moreover have "\<forall>a\<in>set ?out. \<exists>i. int i < nbAct \<and> a = Saturated (int i + 1)"
    by auto
  ultimately show "\<exists>d out. clip_to_limits dminputs nbAct = Inr (d, out) \<and> length d = length dminputs
         \<and> (\<forall>i. int i < nbAct \<longrightarrow>
                - 1 \<le> d ! i \<and> d ! i \<le> 1
                \<and> count_list out (Saturated (int i + 1)) = (if 1 < \<bar>dminputs ! i\<bar> then 1 else 0))
         \<and> (\<forall>a\<in>set out. \<exists>i. int i < nbAct \<and> a = Saturated (int i + 1))"
    using d(1,2) by blast
next
  assume "sendCommand send_ret F nbAct nobias nonorm fractional max_stroke volume_factor
         actuator_mapping = Inr (ret, acts)"
  from sendCommand_dispatched[OF this] obtain v where
    v: "length v = nat nbAct"
       "acts = map (\<lambda>i. Saturated (int i + 1)) (spec_saturated v) @ [AsdkSend (spec_safety_clipping v)]"
    by blast
  have "\<forall>x\<in>set (spec_safety_clipping v). - 1 \<le> x \<and> x \<le> 1"
    by (auto simp: spec_safety_clipping_def spec_clamp_range)
  then show "\<exists>out d. acts = out @ [AsdkSend d] \<and> length d = nat nbAct
         \<and> (\<forall>x\<in>set d. - 1 \<le> x \<and> x \<le> 1)"
    using v by (auto simp: spec_safety_clipping_def)
qed

subsection \<open>Clipping on the values of a C double\<close>

text \<open>
  Two loops whose bodies correspond under a map of the state correspond as a whole.
\<close>

lemma for_loop_simulation:
  assumes "\<And>idx s. body_a idx (f s) = (case body_b idx s of Inl e \<Rightarrow> Inl e | Inr s' \<Rightarrow> Inr (f s'))"
  shows "for_loop i n body_a (f s)
         = (case for_loop i n body_b s of Inl e \<Rightarrow> Inl e | Inr s' \<Rightarrow> Inr (f s'))"
proof (induction "nat n - i" arbitrary: i s)
  case 0
  then have "\<not> int i < n" by linarith
  then show ?case by (simp add: for_loop_done)
next
  case (Suc k)
  then have lt: "int i < n" by linarith
  have k: "k = nat n - Suc i" using Suc.hyps(2) by linarith
  show ?case
  proof (cases "body_b i s")
    case (Inl e)
    then show ?thesis using lt assms[of i s] by (simp add: for_loop.simps[of i])
  next
    case (Inr s')
    then have "body_a i (f s) = Inr (f s')" using assms[of i s] by simp
    then show ?thesis using lt Inr Suc.hyps(1)[OF k, of s']
      by (simp add: for_loop.simps[of i])
  qed
qed

text \<open>
  On finite numbers \<open>clip_to_limits_double\<close> is \<open>clip_to_limits\<close>: the two differ only on
  the infinities and NaN.
\<close>

lemma clip_to_limits_double_Number:
  "clip_to_limits_double (map Number dminputs) nbAct
   = (case clip_to_limits dminputs nbAct of
        Inl e \<Rightarrow> Inl e
      | Inr (d, out) \<Rightarrow> Inr (map Number d, out))"
proof -
  have "for_loop 0 nbAct
     (\<lambda>idx (d, out).
        if idx < length d then
          (if double_gt (d ! idx) 1
           then Inr (d[idx := Number 1], out @ [Saturated (int idx + 1)])
           else if double_lt (d ! idx) (- 1)
           then Inr (d[idx := Number (- 1)], out @ [Saturated (int idx + 1)])
           else Inr (d, out))
        else Inl OutOfBounds)
     ((\<lambda>(d, out). (map Number d, out)) (dminputs, []))
   = (case for_loop 0 nbAct
       (\<lambda>idx (d, out).
          if idx < length d then
            (if d ! idx > 1 then Inr (d[idx := 1], out @ [Saturated (int idx + 1)])
             else if d ! idx < - 1 then Inr (d[idx := - 1], out @ [Saturated (int idx + 1)])
             else Inr (d, out))
          else Inl OutOfBounds)
       (dminputs, []) of
        Inl e \<Rightarrow> Inl e
      | Inr s' \<Rightarrow> Inr ((\<lambda>(d, out). (map Number d, out)) s'))"
    by (rule for_loop_simulation) (auto simp: map_update)
  then show ?thesis
    unfolding clip_to_limits_double_def clip_to_limits_def
    by (simp split: sum.splits prod.splits)
qed

text \<open>
  Claim C1 says that after \<open>clip_to_limits\<close> every element of the vector handed to the device
  lies in \<open>[-1, 1]\<close>, for every input vector, with one saturation message for each element
  that was out of range. The code on the vector \<open>2, NaN, -inf\<close> with \<open>nbAct = 3\<close>: the first
  element is set to \<open>1\<close> and the third to \<open>-1\<close>, each with its message, and the NaN fails
  both comparisons, so that it stays in the vector, which \<open>sendCommand\<close> hands to
  \<open>asdkSend\<close> next, and no message names actuator 2.
\<close>

theorem clip_to_limits_double_nan:
  "clip_to_limits_double [Number 2, NaN, MinusInf] 3
     = Inr ([Number 1, NaN, Number (- 1)], [Saturated 1, Saturated 3])"
  by (simp add: clip_to_limits_double_def for_loop.simps eval_nat_numeral)

subsection \<open>Idempotence, bias removal and the order of the stages\<close>

text \<open>
  Claim C9. Clipping is idempotent: clipping a vector and then clipping the result again
  returns the same vector and prints no message.
\<close>

theorem clip_to_limits_idempotent:
  assumes "nbAct \<le> int (length dminputs)"
  shows "\<exists>d out. clip_to_limits dminputs nbAct = Inr (d, out) \<and> clip_to_limits d nbAct = Inr (d, [])"
proof -
  from clip_to_limits_result[OF assms] obtain d out where
    d: "clip_to_limits dminputs nbAct = Inr (d, out)" "length d = length dminputs"
       "\<forall>j<length dminputs. d ! j = (if int j < nbAct then spec_clamp (dminputs ! j) else dminputs ! j)"
    by blast
  have le: "nbAct \<le> int (length d)" using assms d(2) by simp
  from clip_to_limits_result[OF le] obtain d2 where
    d2: "clip_to_limits d nbAct
            = Inr (d2, map (\<lambda>j. Saturated (int j + 1)) (filter (\<lambda>j. 1 < \<bar>d ! j\<bar>) [0..<nat nbAct]))"
        "length d2 = length d"
        "\<forall>j<length d. d2 ! j = (if int j < nbAct then spec_clamp (d ! j) else d ! j)"
    by blast
  have "filter (\<lambda>j. 1 < \<bar>d ! j\<bar>) [0..<nat nbAct] = []"
  proof -
    have "\<not> 1 < \<bar>d ! j\<bar>" if "j < nat nbAct" for j
    proof -
      have "j < length dminputs" "int j < nbAct" using that assms by linarith+
      then have "d ! j = spec_clamp (dminputs ! j)" using d(3) by simp
      then show ?thesis by (simp add: spec_clamp_not_saturated)
    qed
    then show ?thesis by (auto simp: filter_empty_conv)
  qed
  moreover have "d2 = d"
  proof (rule nth_equalityI)
    show "length d2 = length d" by (rule d2(2))
  next
    fix j assume "j < length d2"
    then have j: "j < length d" "j < length dminputs" using d2(2) d(2) by simp_all
    show "d2 ! j = d ! j"
      using d2(3) d(3) j by (simp add: spec_clamp_idem)
  qed
  ultimately show ?thesis using d(1) d2(1) by simp
qed

theorem clip_to_limits_idempotent_witness:
  "(3::int) \<le> int (length [1/2, 2, - 3 :: real])
   \<and> clip_to_limits [1/2, 2, - 3] 3 = Inr ([1/2, 1, - 1], [Saturated 2, Saturated 3])
   \<and> clip_to_limits [1/2, 1, - 1] 3 = Inr ([1/2, 1, - 1], [])"
proof -
  have h: "(3::int) \<le> int (length [1/2, 2, - 3 :: real])" by simp
  have e: "clip_to_limits [1/2, 2, - 3] 3 = Inr ([1/2, 1, - 1], [Saturated 2, Saturated 3])"
    by (simp add: clip_to_limits_def for_loop.simps)
  from clip_to_limits_idempotent[OF h] e
  have "clip_to_limits [1/2, 1, - 1] 3 = Inr ([1/2, 1, - 1], [])" by auto
  then show ?thesis using h e by simp
qed

lemma sum_list_spec_bias_removal: "xs \<noteq> [] \<Longrightarrow> sum_list (spec_bias_removal xs) = 0"
proof -
  assume ne: "xs \<noteq> []"
  then have n: "real (length xs) \<noteq> 0" by simp
  have "sum_list (spec_bias_removal xs)
          = sum_list xs - real (length xs) * (sum_list xs / real (length xs))"
    by (simp add: spec_bias_removal_def sum_list_subtractf sum_list_triv)
  also have "\<dots> = 0" using n by simp
  finally show ?thesis .
qed

text \<open>
  Claim C8. Bias removal: for a non-empty vector, \<open>bias_inputs\<close> over the whole vector
  returns a vector of the same length whose arithmetic mean is 0 (in exact arithmetic).
\<close>

theorem bias_inputs_zero_mean:
  assumes "dminputs \<noteq> []"
  shows "\<exists>d. bias_inputs dminputs (int (length dminputs)) = Inr d \<and> length d = length dminputs
           \<and> sum_list d / real (length d) = 0"
proof -
  have "bias_inputs dminputs (int (length dminputs)) = Inr (spec_bias_removal dminputs)"
    by (rule bias_inputs_full) simp
  moreover have "length (spec_bias_removal dminputs) = length dminputs"
    by (simp add: spec_bias_removal_def)
  ultimately show ?thesis using sum_list_spec_bias_removal[OF assms] by simp
qed

theorem bias_inputs_zero_mean_witness:
  "[1, 2, 6 :: real] \<noteq> []
   \<and> bias_inputs [1, 2, 6] 3 = Inr [- 2, - 1, 3]
   \<and> sum_list [- 2, - 1, 3 :: real] / real (length [- 2, - 1, 3 :: real]) = 0"
proof -
  have h: "[1, 2, 6 :: real] \<noteq> []" by simp
  have e: "bias_inputs [1, 2, 6] 3 = Inr [- 2, - 1, 3]"
    by (simp add: bias_inputs_def for_loop.simps)
  from bias_inputs_zero_mean[OF h] e
  have "sum_list [- 2, - 1, 3 :: real] / real (length [- 2, - 1, 3 :: real]) = 0" by auto
  then show ?thesis using h e by simp
qed

text \<open>
  Claim C2. The dispatcher: \<open>sendCommand\<close> builds \<open>input[i] = F[actuator_mapping[i]]\<close> for
  every actuator, multiplies by \<open>volume_factor\<close> iff \<open>nonorm \<noteq> 1\<close>, then divides by
  \<open>max_stroke\<close> iff \<open>fractional \<noteq> 1\<close>, then subtracts the mean iff \<open>nobias \<noteq> 1\<close>, and
  then always clips; the clipped vector is what \<open>asdkSend\<close> receives. Each stage is the same
  function of its input whatever the other two switches are. The hypotheses say that the
  run stays inside its arrays (the mapping has \<open>nbAct\<close> entries, each an index of \<open>F\<close>) and
  that a division, when it happens, is by a non-zero \<open>max_stroke\<close>.
\<close>

theorem sendCommand_pipeline_order:
  assumes "nat nbAct \<le> length actuator_mapping"
    and "\<forall>i<nat nbAct. 0 \<le> actuator_mapping ! i \<and> actuator_mapping ! i < int (length F)"
    and "fractional \<noteq> 1 \<longrightarrow> max_stroke \<noteq> 0"
  shows "sendCommand send_ret F nbAct nobias nonorm fractional max_stroke volume_factor actuator_mapping =
     (let input = map (\<lambda>i. F ! nat (actuator_mapping ! i)) [0..<nat nbAct];
          s1 = (if nonorm \<noteq> 1 then spec_volume_normalization volume_factor input else input);
          s2 = (if fractional \<noteq> 1 then spec_unit_conversion max_stroke s1 else s1);
          s3 = (if nobias \<noteq> 1 then spec_bias_removal s2 else s2)
      in Inr (send_ret, map (\<lambda>i. Saturated (int i + 1)) (spec_saturated s3)
                          @ [AsdkSend (spec_safety_clipping s3)]))"
  using sendCommand_result[OF assms, of send_ret nobias nonorm volume_factor]
  by (simp add: spec_before_clipping_def Let_def)

theorem sendCommand_pipeline_order_witness:
  "nat 2 \<le> length [1, 3 :: int]
   \<and> (2::real) \<noteq> 0
   \<and> sendCommand 0 [0, 4, 0, - 8] 2 0 0 0 2 (1/2) [1, 3] = Inr (0, [Saturated 1, Saturated 2, AsdkSend [1, - 1]])"
proof -
  have h1: "nat 2 \<le> length [1, 3 :: int]" by simp
  have h2: "\<forall>i<nat 2. 0 \<le> [1, 3 :: int] ! i \<and> [1, 3 :: int] ! i < int (length [0, 4, 0, - 8 :: real])"
    by (simp add: less_Suc_eq nat_numeral numeral_2_eq_2)
  have h3: "(0::int) \<noteq> 1 \<longrightarrow> (2::real) \<noteq> 0" by simp
  have "sendCommand 0 [0, 4, 0, - 8] 2 0 0 0 2 (1/2) [1, 3] = Inr (0, [Saturated 1, Saturated 2, AsdkSend [1, - 1]])"
    using sendCommand_pipeline_order[OF h1 h2 h3, of 0 0 0 "1/2"]
    by (simp add: Let_def spec_volume_normalization_def spec_unit_conversion_def
        spec_bias_removal_def spec_safety_clipping_def spec_saturated_def spec_clamp_def
        nat_numeral numeral_2_eq_2)
  then show ?thesis using h1 h2 h3 by simp
qed

section \<open>Shared memory initialization\<close>

lemma zero_image_eq:
  "i \<le> 121 \<Longrightarrow> zero_image i acts = acts @ map (\<lambda>j. WriteF j 0) [i..<121]"
proof (induction "121 - i" arbitrary: i acts)
  case 0
  then have "\<not> i < 121" by simp
  then show ?case by (subst zero_image.simps) simp
next
  case (Suc k)
  then have lt: "i < 121" by linarith
  have k: "k = 121 - Suc i" using Suc.hyps(2) by linarith
  have upt: "[i..<121] = i # [Suc i..<121]" using lt by (rule upt_conv_Cons)
  have "zero_image i acts = zero_image (Suc i) (acts @ [WriteF i 0])"
    using lt by (subst zero_image.simps) simp
  also have "\<dots> = (acts @ [WriteF i 0]) @ map (\<lambda>j. WriteF j 0) [Suc i..<121]"
    using lt by (intro Suc.hyps(1)[OF k]) simp
  finally show ?case unfolding upt by simp
qed

lemma initializeSharedMemory_eq:
  "initializeSharedMemory ax1 ax2 =
     [CreateIm 2 [ax1 mod 2 ^ 32, ax2 mod 2 ^ 32] 1 10, SemFlush (- 1), SetWrite 1]
     @ map (\<lambda>i. WriteF i 0) [0..<121]
     @ [SemPost (- 1), SetWrite 0, IncCnt0, IncCnt1]"
  by (simp add: initializeSharedMemory_def zero_image_eq)


text \<open>
  Claim C10. Whatever \<open>ax1\<close> and \<open>ax2\<close> are, \<open>initializeSharedMemory\<close> creates the image,
  flushes all semaphores, then stores \<open>0\<close> into the elements \<open>0, ..., 120\<close> of the float array
  (the first \<open>11 * 11\<close>, each once, and no other), and only then posts all semaphores.
\<close>

theorem initializeSharedMemory_trace:
  "initializeSharedMemory ax1 ax2 =
     [CreateIm 2 [ax1 mod 2 ^ 32, ax2 mod 2 ^ 32] 1 10, SemFlush (- 1), SetWrite 1]
     @ map (\<lambda>i. WriteF i 0) [0..<11 * 11]
     @ [SemPost (- 1), SetWrite 0, IncCnt0, IncCnt1]"
  using initializeSharedMemory_eq[of ax1 ax2] by simp

section \<open>The calibration loader\<close>

text \<open>
  The one failing return of the loader: when the environment variable is set and the
  configuration file cannot be opened, \<open>parse_calibration_file\<close> returns \<open>-1\<close>, and
  \<open>controlLoop\<close> returns \<open>-1\<close> without a single call to the device.
\<close>

lemma parse_calibration_file_unopened:
  assumes "e_alpao_calib E = Some dir" and "e_calib_file E = None"
  shows "parse_calibration_file (e_alpao_calib E) (e_calib_file E) (e_strtod E) (e_calibvals_init E)
           = Inr Ret_minus1
         \<and> controlLoop E nobias nonorm fractional = (Returned (- 1), [])"
  using assms by (simp add: parse_calibration_file_def controlLoop_def)

text \<open>
  Claim C3 says that a calibration file with fewer than two numeric lines makes the loader
  fail and leaves the device uninitialized. The code at a file with the single line
  \<open>3.17\<close>: \<open>parse_calibration_file\<close> returns 0, with \<open>volume_factor\<close> read from the second,
  never written element of the block (here 9), and \<open>controlLoop\<close> goes on to \<open>asdkInit\<close>,
  dispatches, and runs to a normal shutdown.
\<close>

theorem parse_calibration_file_one_line:
  "parse_calibration_file (Some ''/opt/alpao'') (Some [''3.17'']) example_strtod (7, 9)
     = Inr (Ret_0 (317 / 100) 9)
   \<and> fst (controlLoop (example_env (Some [''3.17''])) 0 0 0) = Returned 0
   \<and> AsdkInit \<in> set (snd (controlLoop (example_env (Some [''3.17''])) 0 0 0))
   \<and> AsdkSend [0, 0] \<in> set (snd (controlLoop (example_env (Some [''3.17''])) 0 0 0))"
  by (simp add: parse_calibration_file_def example_strtod_def controlLoop_def example_env_def
      UInt_of_Scalar_def int_of_UInt_def get_actuator_mapping_def fits_of_grid_def IMAGE_HDU_def
      INT_MAX_def LONG_MAX_def
      to_int32_def sendCommand_def normalize_inputs_def microns_to_fractional_stroke_def
      bias_inputs_def clip_to_limits_def for_loop.simps eval_nat_numeral example_wake_def
      shutdown_def Let_def)

section \<open>The actuator map loader\<close>

lemma to_int32_id: "0 \<le> x \<Longrightarrow> x < 2 ^ 31 \<Longrightarrow> to_int32 x = x"
  by (simp add: to_int32_def)

text \<open>
  The column loop over one row, as long as no counter overflows and the array has room:
  it appends, from position \<open>ij\<close> on, the converted index of every positive pixel.
\<close>

lemma column_loop:
  fixes pix :: "int list" and w :: int and r :: nat
  defines "V \<equiv> (\<lambda>ii. to_int32 (int r * w + int ii))"
  defines "body \<equiv> (\<lambda>ii (am, ij).
                     if ii < length pix then
                       (case (if pix ! ii > 0 then
                                (if LONG_MAX < int r * w + int ii then Inl SignedOverflow
                                 else if ij < length am then
                                   (if int ij = INT_MAX then Inl SignedOverflow
                                    else Inr (am[ij := to_int32 (int r * w + int ii)],
                                              Suc ij))
                                 else Inl OutOfBounds)
                              else Inr (am, ij)) of
                          Inl e \<Rightarrow> Inl e
                        | Inr s' \<Rightarrow> if int ii = INT_MAX then Inl SignedOverflow else Inr s')
                     else Inl OutOfBounds)"
    and "em \<equiv> (\<lambda>ii. map V (filter (\<lambda>c. pix ! c > 0) [ii..<length pix]))"
  assumes "ii \<le> length pix" and "ij + length (em ii) \<le> length am"
    and small: "int (length pix) \<le> INT_MAX" "int (ij + length (em ii)) \<le> INT_MAX"
      "int r * w + int (length pix) \<le> LONG_MAX"
  shows "\<exists>am'. for_loop ii (int (length pix)) body (am, ij) = Inr (am', ij + length (em ii))
           \<and> length am' = length am
           \<and> take (ij + length (em ii)) am' = take ij am @ em ii"
  using assms(4,5,7)
proof (induction "length pix - ii" arbitrary: ii am ij)
  case 0
  then have "ii = length pix" by simp
  then show ?case by (simp add: for_loop_done em_def)
next
  case (Suc k)
  then have lt: "ii < length pix" by linarith
  have k: "k = length pix - Suc ii" using Suc.hyps(2) by linarith
  have upt: "[ii..<length pix] = ii # [Suc ii..<length pix]" using lt by (rule upt_conv_Cons)
  have ii: "int ii \<noteq> INT_MAX" using lt small(1) by linarith
  have long: "\<not> LONG_MAX < int r * w + int ii" using lt small(3) by linarith
  show ?case
  proof (cases "pix ! ii > 0")
    case True
    then have em: "em ii = V ii # em (Suc ii)" by (simp add: em_def upt)
    then have ijl: "ij < length am" using Suc.prems(2) by simp
    have ij: "int ij \<noteq> INT_MAX" using Suc.prems(3) em by simp
    let ?am = "am[ij := V ii]"
    have b: "body ii (am, ij) = Inr (?am, Suc ij)"
      using lt True ijl ii ij long by (simp add: body_def V_def)
    have step: "for_loop ii (int (length pix)) body (am, ij)
                  = for_loop (Suc ii) (int (length pix)) body (?am, Suc ij)"
      using lt b by (intro for_loop_step) simp_all
    have room: "Suc ij + length (em (Suc ii)) \<le> length ?am" using Suc.prems(2) em by simp
    have cnt: "int (Suc ij + length (em (Suc ii))) \<le> INT_MAX" using Suc.prems(3) em by simp
    from Suc.hyps(1)[OF k _ room cnt] lt obtain am' where
      am': "for_loop (Suc ii) (int (length pix)) body (?am, Suc ij)
              = Inr (am', Suc ij + length (em (Suc ii)))"
        "length am' = length ?am"
        "take (Suc ij + length (em (Suc ii))) am' = take (Suc ij) ?am @ em (Suc ii)"
      by auto
    have "take (Suc ij) ?am = take ij am @ [V ii]"
      using ijl by (simp add: take_Suc_conv_app_nth)
    then show ?thesis using step am' em by simp
  next
    case False
    then have em: "em ii = em (Suc ii)" by (simp add: em_def upt)
    have b: "body ii (am, ij) = Inr (am, ij)" using lt False ii by (simp add: body_def)
    have step: "for_loop ii (int (length pix)) body (am, ij)
                  = for_loop (Suc ii) (int (length pix)) body (am, ij)"
      using lt b by (intro for_loop_step) simp_all
    have room: "ij + length (em (Suc ii)) \<le> length am" using Suc.prems(2) em by simp
    have cnt: "int (ij + length (em (Suc ii))) \<le> INT_MAX" using Suc.prems(3) em by simp
    from Suc.hyps(1)[OF k _ room cnt] lt obtain am' where
      "for_loop (Suc ii) (int (length pix)) body (am, ij) = Inr (am', ij + length (em (Suc ii)))"
      "length am' = length am"
      "take (ij + length (em (Suc ii))) am' = take ij am @ em (Suc ii)"
      by auto
    then show ?thesis using step em by simp
  qed
qed


lemma scan_rows_grid:
  fixes grid :: "int list list" and width :: nat
    and row_em :: "nat \<Rightarrow> int list" and em :: "nat \<Rightarrow> int list"
  defines "row_em \<equiv> (\<lambda>row. map (\<lambda>c. to_int32 (int row * int width + int c))
                              (filter (\<lambda>c. grid ! row ! c > 0) [0..<width]))"
    and "em \<equiv> (\<lambda>r. concat (map row_em (rev [0..<r])))"
  assumes rows: "\<forall>row\<in>set grid. length row = width"
    and small: "int width * int (length grid) < 2 ^ 31"
    and "r \<le> length grid" and "ij + length (em r) \<le> length am"
    and "int (ij + length (em r)) \<le> INT_MAX"
  shows "\<exists>am'. scan_rows (fits_of_grid grid width) r (am, ij) = Inr (am', ij + length (em r))
           \<and> length am' = length am
           \<and> take (ij + length (em r)) am' = take ij am @ em r"
  using assms(5,6,7)
proof (induction r arbitrary: am ij)
  case 0
  then show ?case by (simp add: em_def)
next
  case (Suc r)
  let ?f = "fits_of_grid grid width"
  let ?pix = "grid ! r"
  have r: "r < length grid" using Suc.prems(1) by simp
  then have len: "length ?pix = width" using rows by simp
  have em: "em (Suc r) = row_em r @ em r" by (simp add: em_def)
  have rd: "f_read_pix ?f (Suc r) = Inr ?pix" using r by (simp add: fits_of_grid_def)
  have w: "f_naxes0 ?f = int (length ?pix)" by (simp add: fits_of_grid_def len)
  have re: "row_em r = map (\<lambda>c. to_int32 (int r * int (length ?pix) + int c))
                         (filter (\<lambda>c. ?pix ! c > 0) [0..<length ?pix])"
    by (simp add: row_em_def len)
  have cells: "int (Suc r) * int width < 2 ^ 31"
  proof -
    have "Suc r * width \<le> length grid * width" using r by (intro mult_le_mono1) simp
    then have "int (Suc r * width) \<le> int (length grid * width)" by (rule iffD2[OF of_nat_le_iff])
    then have "int (Suc r) * int width \<le> int (length grid) * int width"
      by (simp only: of_nat_mult)
    then show ?thesis using small by (simp only: mult.commute[of "int (length grid)"])
  qed
  have wsmall: "int (length ?pix) \<le> INT_MAX"
  proof -
    have "int width \<le> int (Suc r) * int width" by (simp add: distrib_right)
    then show ?thesis using cells by (simp add: len INT_MAX_def)
  qed
  have lsmall: "int r * int (length ?pix) + int (length ?pix) \<le> LONG_MAX"
  proof -
    have "int r * int width + int width = int (Suc r) * int width" by (simp add: distrib_right)
    then show ?thesis using cells by (simp add: len LONG_MAX_def)
  qed
  have room1: "ij + length (map (\<lambda>c. to_int32 (int r * int (length ?pix) + int c))
                         (filter (\<lambda>c. ?pix ! c > 0) [0..<length ?pix])) \<le> length am"
    using Suc.prems(2) em re by simp
  have cnt1: "int (ij + length (map (\<lambda>c. to_int32 (int r * int (length ?pix) + int c))
                         (filter (\<lambda>c. ?pix ! c > 0) [0..<length ?pix]))) \<le> INT_MAX"
    using Suc.prems(3) em re by simp
  from column_loop[where pix="?pix" and ii=0 and r=r and w="int (length ?pix)",
      OF _ room1 wsmall cnt1 lsmall]
  obtain am1 where am1:
    "for_loop 0 (int (length ?pix))
       (\<lambda>ii (am, ij).
           if ii < length ?pix then
             (case (if ?pix ! ii > 0 then
                      (if LONG_MAX < int r * int (length ?pix) + int ii then Inl SignedOverflow
                       else if ij < length am then
                         (if int ij = INT_MAX then Inl SignedOverflow
                          else Inr (am[ij := to_int32 (int r * int (length ?pix) + int ii)],
                                    Suc ij))
                       else Inl OutOfBounds)
                    else Inr (am, ij)) of
                Inl e \<Rightarrow> Inl e
              | Inr s' \<Rightarrow> if int ii = INT_MAX then Inl SignedOverflow else Inr s')
           else Inl OutOfBounds)
       (am, ij) = Inr (am1, ij + length (row_em r))"
    "length am1 = length am"
    "take (ij + length (row_em r)) am1 = take ij am @ row_em r"
    unfolding re by auto
  have room2: "(ij + length (row_em r)) + length (em r) \<le> length am1"
    using Suc.prems(2) em am1(2) by simp
  have cnt2: "int ((ij + length (row_em r)) + length (em r)) \<le> INT_MAX"
    using Suc.prems(3) em by (simp add: add.assoc)
  from Suc.IH[OF _ room2 cnt2] r obtain am' where am':
    "scan_rows ?f r (am1, ij + length (row_em r)) = Inr (am', ij + length (row_em r) + length (em r))"
    "length am' = length am1"
    "take (ij + length (row_em r) + length (em r)) am' = take (ij + length (row_em r)) am1 @ em r"
    by auto
  have "scan_rows ?f (Suc r) (am, ij) = Inr (am', ij + length (em (Suc r)))"
    unfolding scan_rows.simps rd w using am1(1) am'(1) em by (simp add: add.assoc)
  moreover have "take (ij + length (em (Suc r))) am' = take ij am @ em (Suc r)"
    using am'(3) am1(3) em by (simp add: add.assoc)
  ultimately show ?case using am'(2) am1(2) by simp
qed

lemma flat_index_bound:
  assumes "row < h" and "c < w"
  shows "int row * int w + int c < int w * int h"
proof -
  have "row * w + c < Suc row * w" using assms(2) by simp
  also have "\<dots> \<le> h * w" using assms(1) by (intro mult_le_mono1) simp
  finally have "int (row * w + c) < int (h * w)" by (rule iffD2[OF of_nat_less_iff])
  then show ?thesis by (simp add: mult.commute)
qed

lemma row_entries_eq:
  assumes "row < length grid" and "int width * int (length grid) < 2 ^ 31"
  shows "map (\<lambda>c. to_int32 (int row * int width + int c))
           (filter (\<lambda>c. grid ! row ! c > 0) [0..<width])
         = spec_row_indices grid width row"
  unfolding spec_row_indices_def
proof (rule map_cong[OF refl])
  fix c assume "c \<in> set (filter (\<lambda>c. grid ! row ! c > 0) [0..<width])"
  then have "c < width" by simp
  from flat_index_bound[OF assms(1) this] assms(2)
  have "int row * int width + int c < 2 ^ 31" by linarith
  moreover have "0 \<le> int row * int width + int c" by simp
  ultimately show "to_int32 (int row * int width + int c) = int row * int width + int c"
    by (intro to_int32_id)
qed

lemma scan_entries_eq:
  assumes "r \<le> length grid" and "int width * int (length grid) < 2 ^ 31"
  shows "concat (map (\<lambda>row. map (\<lambda>c. to_int32 (int row * int width + int c))
                              (filter (\<lambda>c. grid ! row ! c > 0) [0..<width])) (rev [0..<r]))
         = concat (map (spec_row_indices grid width) (rev [0..<r]))"
proof -
  have "map (\<lambda>row. map (\<lambda>c. to_int32 (int row * int width + int c))
                              (filter (\<lambda>c. grid ! row ! c > 0) [0..<width])) (rev [0..<r])
        = map (spec_row_indices grid width) (rev [0..<r])"
    using assms by (intro map_cong[OF refl] row_entries_eq) auto
  then show ?thesis by (rule arg_cong[of _ _ concat])
qed

lemma length_filter_nth:
  "length (filter (\<lambda>c. P (xs ! c)) [0..<length xs]) = length (filter P xs)"
proof -
  have "filter P xs = filter P (map (nth xs) [0..<length xs])" by (simp add: map_nth)
  also have "\<dots> = map (nth xs) (filter (P \<circ> nth xs) [0..<length xs])" by (rule filter_map)
  finally have "length (filter P xs) = length (filter (P \<circ> nth xs) [0..<length xs])" by simp
  then show ?thesis by (simp add: comp_def)
qed

lemma length_spec_mapping:
  assumes "\<forall>row\<in>set grid. length row = width"
  shows "length (spec_mapping grid width) = spec_positive_cells grid"
proof -
  have row: "length (spec_row_indices grid width r) = length (filter (\<lambda>v. v > 0) (grid ! r))"
    if "r < length grid" for r
  proof -
    have "length (grid ! r) = width" using that assms by simp
    then show ?thesis
      using length_filter_nth[of "\<lambda>v. v > 0" "grid ! r"] by (simp add: spec_row_indices_def)
  qed
  have "length (spec_mapping grid width)
          = sum_list (map (\<lambda>r. length (spec_row_indices grid width r)) (rev [0..<length grid]))"
    by (simp add: spec_mapping_def length_concat comp_def)
  also have "\<dots> = sum_list (map (\<lambda>r. length (spec_row_indices grid width r)) [0..<length grid])"
    by (simp add: rev_map[symmetric])
  also have "\<dots> = sum_list (map (\<lambda>r. length (filter (\<lambda>v. v > 0) (grid ! r))) [0..<length grid])"
    using row by (intro arg_cong[of _ _ sum_list] map_cong[OF refl]) simp
  also have "\<dots> = sum_list (map (\<lambda>row. length (filter (\<lambda>v. v > 0) row)) (map (nth grid) [0..<length grid]))"
    by (simp add: comp_def)
  also have "\<dots> = spec_positive_cells grid"
    by (simp only: map_nth spec_positive_cells_def)
  finally show ?thesis .
qed

lemma spec_rows_distinct_bounded:
  "distinct (concat (map (spec_row_indices grid width) (rev [0..<h])))
   \<and> (\<forall>x\<in>set (concat (map (spec_row_indices grid width) (rev [0..<h]))).
         0 \<le> x \<and> x < int width * int h)"
proof (induction h)
  case 0
  then show ?case by simp
next
  case (Suc h)
  let ?row = "spec_row_indices grid width h"
  let ?rest = "concat (map (spec_row_indices grid width) (rev [0..<h]))"
  have split: "concat (map (spec_row_indices grid width) (rev [0..<Suc h])) = ?row @ ?rest"
    by simp
  have inj: "inj_on (\<lambda>c. int h * int width + int c) A" for A
    by (auto simp: inj_on_def)
  have d: "distinct ?row"
    unfolding spec_row_indices_def by (simp add: distinct_map inj)
  have lo: "int width * int h \<le> x" if "x \<in> set ?row" for x
    using that by (auto simp: spec_row_indices_def mult.commute)
  have hi: "x < int width * int (Suc h)" if "x \<in> set ?row" for x
  proof -
    from that obtain c where "c < width" "x = int h * int width + int c"
      by (auto simp: spec_row_indices_def)
    then show ?thesis using flat_index_bound[of h "Suc h" c width] by simp
  qed
  have rest_hi: "x < int width * int h" if "x \<in> set ?rest" for x
    using Suc.IH that by blast
  have rest_lo: "0 \<le> x" if "x \<in> set ?rest" for x
    using Suc.IH that by blast
  have disj: "set ?row \<inter> set ?rest = {}"
  proof (rule ccontr)
    assume "set ?row \<inter> set ?rest \<noteq> {}"
    then obtain x where "x \<in> set ?row" "x \<in> set ?rest" by blast
    then show False using lo[of x] rest_hi[of x] by simp
  qed
  have le: "int width * int h \<le> int width * int (Suc h)"
    by (simp add: distrib_left)
  have "distinct (?row @ ?rest)" using d Suc.IH disj by simp
  moreover have "\<forall>x\<in>set (?row @ ?rest). 0 \<le> x \<and> x < int width * int (Suc h)"
  proof
    fix x assume "x \<in> set (?row @ ?rest)"
    then consider "x \<in> set ?row" | "x \<in> set ?rest" by auto
    then show "0 \<le> x \<and> x < int width * int (Suc h)"
    proof cases
      case 1
      have "0 \<le> int width * int h" by simp
      then show ?thesis using lo[OF 1] hi[OF 1] by linarith
    next
      case 2
      then show ?thesis using rest_lo[OF 2] rest_hi[OF 2] le by linarith
    qed
  qed
  ultimately show ?case unfolding split by blast
qed

lemma spec_positive_cells_le:
  assumes "\<forall>row\<in>set grid. length row = width"
  shows "spec_positive_cells grid \<le> length grid * width"
  using assms
proof (induction grid)
  case Nil
  then show ?case by (simp add: spec_positive_cells_def)
next
  case (Cons row grid)
  have "length (filter (\<lambda>v. v > 0) row) \<le> width"
    using Cons.prems length_filter_le[of "\<lambda>v. v > 0" row] by simp
  moreover have "spec_positive_cells grid \<le> length grid * width"
    using Cons by simp
  ultimately show ?case by (simp add: spec_positive_cells_def)
qed

text \<open>
  Below \<open>2^31\<close> cells, and with room in the array for every positive cell, the loader does
  what the specification describes: it returns 0 and has written, from position 0 on, the
  sequence \<open>spec_mapping\<close>, which has one entry for each positive cell, no repeated entry,
  and only entries in \<open>[0, width * height)\<close>.
\<close>

lemma get_actuator_mapping_grid:
  assumes rows: "\<forall>row\<in>set grid. length row = width"
    and small: "int width * int (length grid) < 2 ^ 31"
    and room: "spec_positive_cells grid \<le> length actuator_mapping"
  shows "\<exists>am. get_actuator_mapping (Some dir) 0 (fits_of_grid grid width) True pix_uninit_null
                 actuator_mapping = Inr (0, am)
           \<and> length am = length actuator_mapping
           \<and> take (spec_positive_cells grid) am = spec_mapping grid width
           \<and> length (spec_mapping grid width) = spec_positive_cells grid
           \<and> distinct (spec_mapping grid width)
           \<and> (\<forall>x\<in>set (spec_mapping grid width). 0 \<le> x \<and> x < int width * int (length grid))"
proof -
  let ?em = "concat (map (\<lambda>row. map (\<lambda>c. to_int32 (int row * int width + int c))
                              (filter (\<lambda>c. grid ! row ! c > 0) [0..<width])) (rev [0..<length grid]))"
  have em: "?em = spec_mapping grid width"
    unfolding spec_mapping_def using small by (intro scan_entries_eq) simp_all
  have len: "length ?em = spec_positive_cells grid"
    unfolding em by (rule length_spec_mapping[OF rows])
  have room': "0 + length ?em \<le> length actuator_mapping" using room len by simp
  have "int (spec_positive_cells grid) \<le> int (length grid * width)"
    using spec_positive_cells_le[OF rows] by (rule iffD2[OF of_nat_le_iff])
  then have cnt: "int (0 + length ?em) \<le> INT_MAX"
    using small len by (simp add: INT_MAX_def mult.commute)
  from scan_rows_grid[OF rows small _ room' cnt] obtain am where am:
    "scan_rows (fits_of_grid grid width) (length grid) (actuator_mapping, 0) = Inr (am, 0 + length ?em)"
    "length am = length actuator_mapping"
    "take (0 + length ?em) am = take 0 actuator_mapping @ ?em"
    by auto
  have nn: "0 \<le> int width * int (length grid)" by simp
  have neg: "- LONG_MAX - 1 \<le> 0" by (simp add: LONG_MAX_def)
  have tot: "\<not> LONG_MAX < int width * int (length grid)"
    "\<not> int width * int (length grid) < - LONG_MAX - 1"
  proof -
    show "\<not> LONG_MAX < int width * int (length grid)"
      using small by (simp add: LONG_MAX_def)
    show "\<not> int width * int (length grid) < - LONG_MAX - 1"
      using nn neg by linarith
  qed
  have "get_actuator_mapping (Some dir) 0 (fits_of_grid grid width) True pix_uninit_null
          actuator_mapping = Inr (0, am)"
    using am(1) tot by (simp add: get_actuator_mapping_def fits_of_grid_def)
  moreover have "take (spec_positive_cells grid) am = spec_mapping grid width"
    using am(3) len em by simp
  ultimately show ?thesis
    using am(2) length_spec_mapping[OF rows]
      spec_rows_distinct_bounded[of grid width "length grid"]
    unfolding spec_mapping_def[symmetric] by blast
qed


subsection \<open>A grid of more than \<open>2^31\<close> cells\<close>






subsection \<open>A file that cannot be opened, an image that is not 2-D\<close>

lemma get_actuator_mapping_unopened:
  assumes "open_status \<noteq> 0"
  shows "get_actuator_mapping (Some dir) open_status f pix_malloc_ok pix_uninit_null am
           = (if pix_uninit_null then Inr (0, am) else Inl InvalidFree)"
  using assms by (simp add: get_actuator_mapping_def)

lemma get_actuator_mapping_not_2d:
  assumes "f_naxis f \<noteq> 2"
  shows "get_actuator_mapping (Some dir) 0 f pix_malloc_ok pix_uninit_null am = Inr (1, am)"
  using assms by (simp add: get_actuator_mapping_def)

text \<open>
  Claim C5 at a file that cannot be opened (\<open>fits_open_image\<close> returns 104): the loader
  returns 0, the value it returns on success, when the uninitialised \<open>pix\<close> happens to be
  NULL, and otherwise frees an invalid pointer. It returns 1 for an image that is not 2-D
  (\<open>get_actuator_mapping_not_2d\<close>).
\<close>

theorem get_actuator_mapping_open_failure:
  "get_actuator_mapping (Some ''/opt/alpao'') 104 (fits_of_grid [[1, 1]] 2) True True [7, 9]
     = Inr (0, [7, 9])
   \<and> get_actuator_mapping (Some ''/opt/alpao'') 104 (fits_of_grid [[1, 1]] 2) True False [7, 9]
     = Inl InvalidFree"
  by (simp add: get_actuator_mapping_def)

theorem get_actuator_mapping_open_failure_witness:
  "get_actuator_mapping (Some ''/opt/alpao'') 104 (fits_of_grid [[1, 1]] 2) True True [7, 9]
     \<noteq> Inr (1, [7, 9])"
  using get_actuator_mapping_open_failure by simp


section \<open>The control loop\<close>

lemma sendCommand_sent:
  assumes "sendCommand send_ret F nbAct nobias nonorm fractional max_stroke volume_factor
             actuator_mapping = Inr (ret, sent)"
  shows "AsdkReset \<notin> set sent \<and> AsdkRelease \<notin> set sent
         \<and> (\<exists>out v. sent = out @ [AsdkSend v] \<and> (\<forall>a\<in>set out. \<exists>n. a = Saturated n))"
proof -
  from sendCommand_dispatched[OF assms] obtain v where
    "sent = map (\<lambda>i. Saturated (int i + 1)) (spec_saturated v) @ [AsdkSend (spec_safety_clipping v)]"
    by blast
  then show ?thesis by auto
qed








text \<open>
  Claim C7. In a pass of the loop that dispatches, if \<open>sendCommand\<close> returns the failure
  status \<open>-1\<close> then \<open>controlLoop\<close> returns \<open>-1\<close> at once: the calls of the pass are the wait,
  the saturation messages and the one \<open>asdkSend\<close>, and nothing follows, whatever returns of
  the wait are still to come.
\<close>

theorem control_loop_send_failure:
  assumes "\<not> stop" and "\<not> w_sigint_before_test w" and "\<not> w_sigint_in_wait w"
    and "sendCommand (w_send_ret w) (w_frame w) (l_nbAct l) (l_nobias l) (l_nonorm l)
           (l_fractional l) (l_max_stroke l) (l_volume_factor l) (l_actuator_mapping l)
         = Inr (- 1, sent)"
  shows "control_loop l stop (w # ws) acts = (Returned (- 1), acts @ [SemWait 0] @ sent)
         \<and> (\<exists>out v. sent = out @ [AsdkSend v] \<and> (\<forall>a\<in>set out. \<exists>n. a = Saturated n))"
  using assms sendCommand_sent[OF assms(4)] by simp

theorem control_loop_send_failure_witness:
  "sendCommand (w_send_ret (example_wake False (- 1))) (w_frame (example_wake False (- 1)))
       (l_nbAct example_locals) (l_nobias example_locals) (l_nonorm example_locals)
       (l_fractional example_locals) (l_max_stroke example_locals)
       (l_volume_factor example_locals) (l_actuator_mapping example_locals)
     = Inr (- 1, [AsdkSend [0, 0]])
   \<and> control_loop example_locals False [example_wake False (- 1), example_wake False 0] []
        = (Returned (- 1), [SemWait 0, AsdkSend [0, 0]])"
proof -
  have h: "\<not> False" "\<not> w_sigint_before_test (example_wake False (- 1))"
    "\<not> w_sigint_in_wait (example_wake False (- 1))"
    by (simp_all add: example_wake_def)
  have s: "sendCommand (w_send_ret (example_wake False (- 1))) (w_frame (example_wake False (- 1)))
       (l_nbAct example_locals) (l_nobias example_locals) (l_nonorm example_locals)
       (l_fractional example_locals) (l_max_stroke example_locals)
       (l_volume_factor example_locals) (l_actuator_mapping example_locals)
     = Inr (- 1, [AsdkSend [0, 0]])"
    by (simp add: example_wake_def example_locals_def sendCommand_def normalize_inputs_def
        microns_to_fractional_stroke_def bias_inputs_def clip_to_limits_def for_loop.simps
        eval_nat_numeral Let_def)
  from control_loop_send_failure[OF h s, of "[example_wake False 0]" "[]"] s
  show ?thesis by simp
qed

end
